theory Spec2Isabelle
  imports Complex_Main "HOL-Library.Word"
begin

section \<open>Random sampling of configurations (fcl/math/sampling.h)\<close>

text \<open>
  The header declares the random engine \<open>RNG\<close> and a family of samplers that own one engine
  each and assemble primitive draws into configuration vectors.

  Conventions of this embedding.
  \<^item> \<open>FCL_REAL\<close> is \<open>double\<close>: IEEE 754 binary64 with the default rounding, to nearest with
    ties to even. A \<open>double\<close> is a finite real, an infinity or a NaN; every arithmetic
    operation rounds its exact result once (no fused multiply-add, no extended precision).
    The two zeros are identified and NaN payloads are ignored: no operation of the header
    distinguishes them.
  \<^item> A failed \<open>assert\<close>, an index outside a vector and a conversion to \<open>int\<close> that does not fit
    are outcomes of type \<open>error\<close>. A method maps the object's state to an outcome and the
    state reached, so the state at a failure is still observable.
  \<^item> The standard library's generator and distributions are fields of the engine record:
    a distribution is the function from a generator state to the value drawn and the next
    generator state. The fields \<open>generator_\<close>, \<open>uniDist_\<close> and \<open>normalDist_\<close> lose their
    trailing underscore.
\<close>

subsection \<open>Binary64 arithmetic\<close>

text \<open>Rounding a real to the nearest integer, ties to the even one.\<close>

definition round_even :: "real \<Rightarrow> int" where
  "round_even y =
     (let f = \<lfloor>y\<rfloor>; d = y - of_int f
      in if d < 1 / 2 then f else if 1 / 2 < d then f + 1 else if even f then f else f + 1)"

text \<open>
  The binary exponent of a real: \<open>2^e \<le> |x| < 2^(e+1)\<close>, and \<open>-1022\<close> for zero and for the
  subnormal range.
\<close>

definition exponent :: "real \<Rightarrow> int" where
  "exponent x = (if x = 0 then - 1022 else max \<lfloor>log 2 \<bar>x\<bar>\<rfloor> (- 1022))"

text \<open>
  Rounding to 53 significant bits: the nearest multiple of \<open>2^(e-52)\<close>, ties to even, with the
  exponent not yet bounded above.
\<close>

definition rne :: "real \<Rightarrow> real" where
  "rne x = 2 powi (exponent x - 52) * of_int (round_even (x / 2 powi (exponent x - 52)))"

text \<open>
  A \<open>double\<close>: a finite value, an infinity or a NaN. The operations below produce finite
  values that rounding leaves unchanged (\<open>is_double\<close> further down); the type itself does not
  exclude other reals.
\<close>

datatype double = Finite real | PInf | NInf | NaN

text \<open>The result of an operation whose exact value is \<open>x\<close>: overflow gives an infinity.\<close>

definition to_double :: "real \<Rightarrow> double" where
  "to_double x =
     (let y = rne x
      in if 2 ^ 1024 \<le> y then PInf else if y \<le> - (2 ^ 1024) then NInf else Finite y)"

fun dneg :: "double \<Rightarrow> double" where
  "dneg (Finite a) = Finite (- a)"
| "dneg PInf = NInf"
| "dneg NInf = PInf"
| "dneg NaN = NaN"

fun fadd :: "double \<Rightarrow> double \<Rightarrow> double" where
  "fadd (Finite a) (Finite b) = to_double (a + b)"
| "fadd (Finite a) PInf = PInf"
| "fadd (Finite a) NInf = NInf"
| "fadd PInf (Finite b) = PInf"
| "fadd NInf (Finite b) = NInf"
| "fadd PInf PInf = PInf"
| "fadd NInf NInf = NInf"
| "fadd PInf NInf = NaN"
| "fadd NInf PInf = NaN"
| "fadd NaN y = NaN"
| "fadd x NaN = NaN"

definition fsub :: "double \<Rightarrow> double \<Rightarrow> double" where
  "fsub x y = fadd x (dneg y)"

fun fmul :: "double \<Rightarrow> double \<Rightarrow> double" where
  "fmul (Finite a) (Finite b) = to_double (a * b)"
| "fmul (Finite a) PInf = (if a = 0 then NaN else if 0 < a then PInf else NInf)"
| "fmul (Finite a) NInf = (if a = 0 then NaN else if 0 < a then NInf else PInf)"
| "fmul PInf (Finite b) = (if b = 0 then NaN else if 0 < b then PInf else NInf)"
| "fmul NInf (Finite b) = (if b = 0 then NaN else if 0 < b then NInf else PInf)"
| "fmul PInf PInf = PInf"
| "fmul NInf NInf = PInf"
| "fmul PInf NInf = NInf"
| "fmul NInf PInf = NInf"
| "fmul NaN y = NaN"
| "fmul x NaN = NaN"

text \<open>The comparisons \<open><=\<close> and \<open><\<close>: false when an operand is a NaN.\<close>

fun dle :: "double \<Rightarrow> double \<Rightarrow> bool" where
  "dle (Finite a) (Finite b) = (a \<le> b)"
| "dle (Finite a) PInf = True"
| "dle (Finite a) NInf = False"
| "dle PInf (Finite b) = False"
| "dle NInf (Finite b) = True"
| "dle PInf PInf = True"
| "dle NInf NInf = True"
| "dle PInf NInf = False"
| "dle NInf PInf = True"
| "dle NaN y = False"
| "dle x NaN = False"

fun dlt :: "double \<Rightarrow> double \<Rightarrow> bool" where
  "dlt (Finite a) (Finite b) = (a < b)"
| "dlt (Finite a) PInf = True"
| "dlt (Finite a) NInf = False"
| "dlt PInf (Finite b) = False"
| "dlt NInf (Finite b) = True"
| "dlt PInf PInf = False"
| "dlt NInf NInf = False"
| "dlt PInf NInf = False"
| "dlt NInf PInf = True"
| "dlt NaN y = False"
| "dlt x NaN = False"

text \<open>\<open>floor\<close> of the C library: exact, and the identity on infinities and NaN.\<close>

fun dfloor :: "double \<Rightarrow> double" where
  "dfloor (Finite a) = Finite (of_int \<lfloor>a\<rfloor>)"
| "dfloor PInf = PInf"
| "dfloor NInf = NInf"
| "dfloor NaN = NaN"

text \<open>
  \<open>sqrt\<close>, \<open>sin\<close> and \<open>cos\<close> of the C library, taken as correctly rounded. They occur only in
  the two engine operations that are modelled from the specification.
\<close>

fun dsqrt :: "double \<Rightarrow> double" where
  "dsqrt (Finite a) = (if a < 0 then NaN else to_double (sqrt a))"
| "dsqrt PInf = PInf"
| "dsqrt NInf = NaN"
| "dsqrt NaN = NaN"

fun dsin :: "double \<Rightarrow> double" where
  "dsin (Finite a) = to_double (sin a)"
| "dsin PInf = NaN"
| "dsin NInf = NaN"
| "dsin NaN = NaN"

fun dcos :: "double \<Rightarrow> double" where
  "dcos (Finite a) = to_double (cos a)"
| "dcos PInf = NaN"
| "dcos NInf = NaN"
| "dcos NaN = NaN"

text \<open>
  Modelled from the spec: \<open>constants::pi\<close> is declared in \<open>fcl/math/constants.h\<close>, which is not
  among the sources; the specification treats it as the numeric constant \<open>pi\<close>. As a
  \<open>double\<close> it is the binary64 value nearest to \<open>pi\<close>, \<open>884279719003555 / 2^48\<close>
  (\<open>3.141592653589793\<close>).
\<close>

definition pi64 :: real where
  "pi64 = 884279719003555 / 2 ^ 48"

definition constants_pi :: double where
  "constants_pi = Finite pi64"

subsection \<open>Outcomes and sequencing\<close>

datatype error =
    AssertionFailed
  | IndexOutOfRange nat nat
  | ConversionOutOfRange

text \<open>\<open>IndexOutOfRange i n\<close>: index \<open>i\<close> was used on a vector of \<open>n\<close> elements.\<close>

definition ret :: "'a \<Rightarrow> 's \<Rightarrow> (error + 'a) \<times> 's" where
  "ret x s = (Inr x, s)"

definition andThen ::
  "('s \<Rightarrow> (error + 'a) \<times> 's) \<Rightarrow> ('a \<Rightarrow> 's \<Rightarrow> (error + 'b) \<times> 's) \<Rightarrow> 's \<Rightarrow> (error + 'b) \<times> 's"
where
  "andThen m f s =
     (case m s of
        (Inl e, s') \<Rightarrow> (Inl e, s')
      | (Inr x, s') \<Rightarrow> f x s')"

subsection \<open>The engine: class RNG\<close>

record 'g RNG =
  generator :: 'g
  uniDist :: "'g \<Rightarrow> double \<times> 'g"
  normalDist :: "'g \<Rightarrow> double \<times> 'g"

text \<open>\<open>double uniform01() { return uniDist_(generator_); }\<close>\<close>

definition uniform01 :: "'g RNG \<Rightarrow> double \<times> 'g RNG" where
  "uniform01 self =
     (case uniDist self (generator self) of
        (u, g) \<Rightarrow> (u, self\<lparr>generator := g\<rparr>))"

text \<open>
  \<^verbatim>\<open>assert(lower_bound <= upper_bound);
return (upper_bound - lower_bound) * uniDist_(generator_) + lower_bound;\<close>
\<close>

definition uniformReal :: "double \<Rightarrow> double \<Rightarrow> 'g RNG \<Rightarrow> (error + double) \<times> 'g RNG" where
  "uniformReal lower upper self =
     (if dle lower upper
      then (case uniDist self (generator self) of
              (u, g) \<Rightarrow> (Inr (fadd (fmul (fsub upper lower) u) lower), self\<lparr>generator := g\<rparr>))
      else (Inl AssertionFailed, self))"

text \<open>The conversion \<open>(double)i\<close> of a 32-bit \<open>int\<close>: exact.\<close>

definition double_of_int :: "32 word \<Rightarrow> double" where
  "double_of_int i = Finite (of_int (sint i))"

text \<open>
  The conversion \<open>(int)x\<close> of a \<open>double\<close> to a 32-bit \<open>int\<close>: truncation towards zero; a value
  that does not fit (or an infinity, or a NaN) has no defined result and is the outcome
  \<open>ConversionOutOfRange\<close>.
\<close>

fun int_cast :: "double \<Rightarrow> error + 32 word" where
  "int_cast (Finite x) =
     (let t = (if 0 \<le> x then \<lfloor>x\<rfloor> else \<lceil>x\<rceil>)
      in if - (2 ^ 31) \<le> t \<and> t < 2 ^ 31 then Inr (word_of_int t) else Inl ConversionOutOfRange)"
| "int_cast PInf = Inl ConversionOutOfRange"
| "int_cast NInf = Inl ConversionOutOfRange"
| "int_cast NaN = Inl ConversionOutOfRange"

text \<open>
  \<^verbatim>\<open>int r = (int)floor(uniformReal((double)lower_bound, (double)(upper_bound) + 1.0));
return (r > upper_bound) ? upper_bound : r;\<close>
\<close>

definition uniformInt :: "32 word \<Rightarrow> 32 word \<Rightarrow> 'g RNG \<Rightarrow> (error + 32 word) \<times> 'g RNG" where
  "uniformInt lower upper =
     andThen (uniformReal (double_of_int lower) (fadd (double_of_int upper) (Finite 1))) (\<lambda>x.
     andThen (\<lambda>self. (int_cast (dfloor x), self)) (\<lambda>k.
     ret (if sint upper < sint k then upper else k)))"

text \<open>\<open>bool uniformBool() { return uniDist_(generator_) <= 0.5; }\<close>\<close>

definition uniformBool :: "'g RNG \<Rightarrow> bool \<times> 'g RNG" where
  "uniformBool self =
     (case uniDist self (generator self) of
        (u, g) \<Rightarrow> (dle u (Finite (1 / 2)), self\<lparr>generator := g\<rparr>))"

text \<open>\<open>double gaussian01() { return normalDist_(generator_); }\<close>\<close>

definition gaussian01 :: "'g RNG \<Rightarrow> double \<times> 'g RNG" where
  "gaussian01 self =
     (case normalDist self (generator self) of
        (v, g) \<Rightarrow> (v, self\<lparr>generator := g\<rparr>))"

text \<open>\<open>return normalDist_(generator_) * stddev + mean;\<close>\<close>

definition gaussian :: "double \<Rightarrow> double \<Rightarrow> 'g RNG \<Rightarrow> double \<times> 'g RNG" where
  "gaussian mean stddev self =
     (case normalDist self (generator self) of
        (v, g) \<Rightarrow> (fadd (fmul v stddev) mean, self\<lparr>generator := g\<rparr>))"

text \<open>
  Modelled from the spec: \<open>RNG::quaternion\<close> is declared in the header and defined in a
  source file that is not part of it. The specification gives the construction: three
  uniform draws \<open>u1\<close>, \<open>u2\<close>, \<open>u3\<close> from \<open>[0,1)\<close> and
  \<open>x = sqrt(1-u1)*sin(2 pi u2)\<close>, \<open>y = sqrt(1-u1)*cos(2 pi u2)\<close>,
  \<open>z = sqrt(u1)*sin(2 pi u3)\<close>, \<open>w = sqrt(u1)*cos(2 pi u3)\<close>, in the order \<open>(x, y, z, w)\<close>.
  Each operation of these formulas is one \<open>double\<close> operation.
\<close>

definition quaternion :: "'g RNG \<Rightarrow> (double \<times> double \<times> double \<times> double) \<times> 'g RNG" where
  "quaternion self =
     (case uniform01 self of (u1, g1) \<Rightarrow>
      case uniform01 g1 of (u2, g2) \<Rightarrow>
      case uniform01 g2 of (u3, g3) \<Rightarrow>
        ((fmul (dsqrt (fsub (Finite 1) u1)) (dsin (fmul (fmul (Finite 2) constants_pi) u2)),
          fmul (dsqrt (fsub (Finite 1) u1)) (dcos (fmul (fmul (Finite 2) constants_pi) u2)),
          fmul (dsqrt u1) (dsin (fmul (fmul (Finite 2) constants_pi) u3)),
          fmul (dsqrt u1) (dcos (fmul (fmul (Finite 2) constants_pi) u3))), g3))"

text \<open>
  Modelled from the spec: \<open>RNG::disk\<close> is declared in the header and defined in a source
  file that is not part of it. The specification gives the construction: the angle
  \<open>theta = uniformReal(0, 2 pi)\<close>, the radius \<open>rho = sqrt(uniformReal(r_min^2, r_max^2))\<close>,
  and the point \<open>(rho cos theta, rho sin theta)\<close>. Each operation of these formulas is one
  \<open>double\<close> operation.
\<close>

definition disk :: "double \<Rightarrow> double \<Rightarrow> 'g RNG \<Rightarrow> (error + double \<times> double) \<times> 'g RNG" where
  "disk rmin rmax =
     andThen (uniformReal (Finite 0) (fmul (Finite 2) constants_pi)) (\<lambda>theta.
     andThen (uniformReal (fmul rmin rmin) (fmul rmax rmax)) (\<lambda>a.
     ret (fmul (dsqrt a) (dcos theta), fmul (dsqrt a) (dsin theta))))"

subsection \<open>Vectors\<close>

text \<open>
  Modelled from the spec: the type \<open>VectorNd<N>\<close> is declared outside the header; the
  specification describes it as a fixed-size ordered tuple of reals with indexed read and
  write. A vector is the list of its \<open>N\<close> components, and an index outside \<open>0..N-1\<close> is the
  outcome \<open>IndexOutOfRange\<close>.
\<close>

definition vec_at :: "double list \<Rightarrow> nat \<Rightarrow> error + double" where
  "vec_at v i = (if i < length v then Inr (v ! i) else Inl (IndexOutOfRange i (length v)))"

definition vec_set :: "double list \<Rightarrow> nat \<Rightarrow> double \<Rightarrow> error + double list" where
  "vec_set v i x = (if i < length v then Inr (v[i := x]) else Inl (IndexOutOfRange i (length v)))"

text \<open>Reading component \<open>i\<close> of the vector-valued member \<open>fld\<close> of the current object.\<close>

definition rd :: "('s \<Rightarrow> double list) \<Rightarrow> nat \<Rightarrow> 's \<Rightarrow> (error + double) \<times> 's" where
  "rd fld i s = (vec_at (fld s) i, s)"

subsection \<open>Samplers\<close>

text \<open>\<open>class SamplerBase { public: mutable RNG rng; };\<close>\<close>

record 'g SamplerBase =
  rng :: "'g RNG"

text \<open>
  A \<open>const\<close> method reaches the engine through the \<open>mutable\<close> member: an engine operation
  runs on the member \<open>rng\<close> and the engine it leaves is stored back.
\<close>

definition with_rng ::
  "('g RNG \<Rightarrow> (error + 'a) \<times> 'g RNG) \<Rightarrow>
   ('g, 'z) SamplerBase_scheme \<Rightarrow> (error + 'a) \<times> ('g, 'z) SamplerBase_scheme"
where
  "with_rng m s = (case m (rng s) of (res, g) \<Rightarrow> (res, s\<lparr>rng := g\<rparr>))"

definition total :: "('s \<Rightarrow> 'a \<times> 's) \<Rightarrow> 's \<Rightarrow> (error + 'a) \<times> 's" where
  "total m s = (case m s of (x, s') \<Rightarrow> (Inr x, s'))"

text \<open>
  \<open>SamplerR<N>\<close>, \<open>SamplerSE2\<close>, \<open>SamplerSE3Euler\<close> and \<open>SamplerSE3Quat\<close> have the same members:
  the engine of the base class and the two bound vectors (\<open>VectorNd<N>\<close>, \<open>VectorNd<2>\<close>,
  \<open>VectorNd<3>\<close>, \<open>VectorNd<3>\<close>).
\<close>

record 'g SamplerBox = "'g SamplerBase" +
  lower_bound :: "double list"
  upper_bound :: "double list"

type_synonym 'g SamplerR = "'g SamplerBox"
type_synonym 'g SamplerSE2 = "'g SamplerBox"
type_synonym 'g SamplerSE3Euler = "'g SamplerBox"
type_synonym 'g SamplerSE3Quat = "'g SamplerBox"

text \<open>The bounds are vectors of the declared size.\<close>

definition declared :: "nat \<Rightarrow> 'g SamplerBox \<Rightarrow> bool" where
  "declared N s \<longleftrightarrow> length (lower_bound s) = N \<and> length (upper_bound s) = N"

text \<open>
  The constructor with bounds. The engine member is default-constructed by \<open>RNG::RNG()\<close>,
  which is defined outside the header: the engine it produces is the argument \<open>g\<close>.
\<close>

definition Sampler_bounds :: "double list \<Rightarrow> double list \<Rightarrow> 'g RNG \<Rightarrow> 'g SamplerBox" where
  "Sampler_bounds lower upper g = \<lparr>rng = g, lower_bound = lower, upper_bound = upper\<rparr>"

text \<open>
  The default constructor leaves both vectors uninitialised: their contents \<open>l0\<close> and \<open>u0\<close>
  are arbitrary.
\<close>

definition Sampler_default :: "double list \<Rightarrow> double list \<Rightarrow> 'g RNG \<Rightarrow> 'g SamplerBox" where
  "Sampler_default l0 u0 g = \<lparr>rng = g, lower_bound = l0, upper_bound = u0\<rparr>"

definition setBound :: "double list \<Rightarrow> double list \<Rightarrow> 'g SamplerBox \<Rightarrow> 'g SamplerBox" where
  "setBound lower upper s = s\<lparr>lower_bound := lower, upper_bound := upper\<rparr>"

definition getBound :: "'g SamplerBox \<Rightarrow> double list \<times> double list" where
  "getBound s = (lower_bound s, upper_bound s)"

text \<open>
  \<open>SamplerR<N>::sample\<close>:
  \<^verbatim>\<open>for(std::size_t i = 0; i < N; ++i)
  q[i] = rng.uniformReal(lower_bound[i], upper_bound[i]);
return q;\<close>
  The vector \<open>q\<close> starts uninitialised; the model starts it at zero.
\<close>

definition SamplerR_body ::
  "nat \<Rightarrow> double list \<Rightarrow> 'g SamplerR \<Rightarrow> (error + double list) \<times> 'g SamplerR"
where
  "SamplerR_body i q =
     andThen (rd lower_bound i) (\<lambda>lo.
     andThen (rd upper_bound i) (\<lambda>hi.
     andThen (with_rng (uniformReal lo hi)) (\<lambda>x.
     (\<lambda>s. (vec_set q i x, s)))))"

function SamplerR_loop ::
  "nat \<Rightarrow> nat \<Rightarrow> double list \<Rightarrow> 'g SamplerR \<Rightarrow> (error + double list) \<times> 'g SamplerR"
where
  "SamplerR_loop N i q s =
     (if i < N
      then (case SamplerR_body i q s of
              (Inl e, s') \<Rightarrow> (Inl e, s')
            | (Inr q', s') \<Rightarrow> SamplerR_loop N (Suc i) q' s')
      else (Inr q, s))"
  by pat_completeness auto
termination
  by (relation "measure (\<lambda>(N, i, q, s). N - i)") auto

declare SamplerR_loop.simps [simp del]

definition SamplerR_sample :: "nat \<Rightarrow> 'g SamplerR \<Rightarrow> (error + double list) \<times> 'g SamplerR" where
  "SamplerR_sample N s = SamplerR_loop N 0 (replicate N (Finite 0)) s"

text \<open>
  \<open>SamplerSE2::sample\<close>:
  \<^verbatim>\<open>q[0] = rng.uniformReal(lower_bound[0], lower_bound[1]);
q[1] = rng.uniformReal(lower_bound[1], lower_bound[2]);
q[2] = rng.uniformReal(-constants::pi, constants::pi);
return q;\<close>
\<close>

definition SamplerSE2_sample :: "'g SamplerSE2 \<Rightarrow> (error + double list) \<times> 'g SamplerSE2" where
  "SamplerSE2_sample =
     andThen (rd lower_bound 0) (\<lambda>a0.
     andThen (rd lower_bound 1) (\<lambda>a1.
     andThen (with_rng (uniformReal a0 a1)) (\<lambda>q0.
     andThen (rd lower_bound 1) (\<lambda>b0.
     andThen (rd lower_bound 2) (\<lambda>b1.
     andThen (with_rng (uniformReal b0 b1)) (\<lambda>q1.
     andThen (with_rng (uniformReal (dneg constants_pi) constants_pi)) (\<lambda>q2.
     ret [q0, q1, q2])))))))"

text \<open>
  \<open>SamplerSE3Quat::sample\<close>: three position draws, then
  \<^verbatim>\<open>rng.quaternion(s);
q[3] = s[0]; q[4] = s[1]; q[5] = s[2]; q[6] = s[3];\<close>
\<close>

definition SamplerSE3Quat_sample ::
  "'g SamplerSE3Quat \<Rightarrow> (error + double list) \<times> 'g SamplerSE3Quat"
where
  "SamplerSE3Quat_sample =
     andThen (rd lower_bound 0) (\<lambda>l0.
     andThen (rd upper_bound 0) (\<lambda>u0.
     andThen (with_rng (uniformReal l0 u0)) (\<lambda>q0.
     andThen (rd lower_bound 1) (\<lambda>l1.
     andThen (rd upper_bound 1) (\<lambda>u1.
     andThen (with_rng (uniformReal l1 u1)) (\<lambda>q1.
     andThen (rd lower_bound 2) (\<lambda>l2.
     andThen (rd upper_bound 2) (\<lambda>u2.
     andThen (with_rng (uniformReal l2 u2)) (\<lambda>q2.
     andThen (with_rng (total quaternion)) (\<lambda>(s0, s1, s2, s3).
     ret [q0, q1, q2, s0, s1, s2, s3]))))))))))"

text \<open>
  \<open>SamplerSE3Euler::sample\<close>: the same draws, then
  \<^verbatim>\<open>Quaternion3d quat(s[0], s[1], s[2], s[3]);
Vector3d angles = quat.toRotationMatrix().eulerAngles(0, 1, 2);
q[3] = angles[0]; q[4] = angles[1]; q[5] = angles[2];\<close>
  The conversion belongs to the linear-algebra library: it is the parameter \<open>eulerAngles\<close>,
  from the four constructor arguments to the three angles.
\<close>

definition SamplerSE3Euler_sample ::
  "(double \<times> double \<times> double \<times> double \<Rightarrow> double \<times> double \<times> double) \<Rightarrow>
   'g SamplerSE3Euler \<Rightarrow> (error + double list) \<times> 'g SamplerSE3Euler"
where
  "SamplerSE3Euler_sample eulerAngles =
     andThen (rd lower_bound 0) (\<lambda>l0.
     andThen (rd upper_bound 0) (\<lambda>u0.
     andThen (with_rng (uniformReal l0 u0)) (\<lambda>q0.
     andThen (rd lower_bound 1) (\<lambda>l1.
     andThen (rd upper_bound 1) (\<lambda>u1.
     andThen (with_rng (uniformReal l1 u1)) (\<lambda>q1.
     andThen (rd lower_bound 2) (\<lambda>l2.
     andThen (rd upper_bound 2) (\<lambda>u2.
     andThen (with_rng (uniformReal l2 u2)) (\<lambda>q2.
     andThen (with_rng (total quaternion)) (\<lambda>quat.
     (case eulerAngles quat of (a0, a1, a2) \<Rightarrow>
     ret [q0, q1, q2, a0, a1, a2])))))))))))"

text \<open>
  \<open>SamplerSE2_disk\<close>: the members \<open>FCL_REAL c[2]\<close> and \<open>FCL_REAL cref[2]\<close> are pairs
  (\<open>c[0]\<close> is \<open>fst\<close>, \<open>c[1]\<close> is \<open>snd\<close>).
\<close>

record 'g SamplerSE2_disk = "'g SamplerBase" +
  c :: "double \<times> double"
  cref :: "double \<times> double"
  r_min :: double
  r_max :: double

definition SamplerSE2_disk_setBound ::
  "double \<Rightarrow> double \<Rightarrow> double \<Rightarrow> double \<Rightarrow> double \<Rightarrow> double \<Rightarrow> 'g SamplerSE2_disk \<Rightarrow> 'g SamplerSE2_disk"
where
  "SamplerSE2_disk_setBound cx cy r1 r2 crefx crefy s =
     s\<lparr>c := (cx, cy), cref := (crefx, crefy), r_min := r1, r_max := r2\<rparr>"

text \<open>
  \<open>SamplerSE2_disk::sample\<close>:
  \<^verbatim>\<open>rng.disk(r_min, r_max, x, y);
q[0] = x + c[0] - cref[0];
q[1] = y + c[1] - cref[1];
q[2] = rng.uniformReal(-constants::pi, constants::pi);\<close>
\<close>

definition SamplerSE2_disk_sample ::
  "'g SamplerSE2_disk \<Rightarrow> (error + double list) \<times> 'g SamplerSE2_disk"
where
  "SamplerSE2_disk_sample =
     andThen (\<lambda>s. with_rng (disk (r_min s) (r_max s)) s) (\<lambda>(x, y).
     andThen (\<lambda>s. ret (fsub (fadd x (fst (c s))) (fst (cref s))) s) (\<lambda>q0.
     andThen (\<lambda>s. ret (fsub (fadd y (snd (c s))) (snd (cref s))) s) (\<lambda>q1.
     andThen (with_rng (uniformReal (dneg constants_pi) constants_pi)) (\<lambda>q2.
     ret [q0, q1, q2]))))"

text \<open>
  \<open>SamplerSE3Euler_ball\<close> and \<open>SamplerSE3Quat_ball\<close> have the same members: the engine and
  the radius \<open>r\<close>.

  \<open>RNG::ball\<close> is declared in the header, \<open>void ball(double r_min, double r_max, double& x,
  double& y, double& z)\<close>, and defined outside it; the specification leaves its construction
  open. The samplers take it as the parameter \<open>ball\<close> of the declared shape: an engine
  operation that yields three coordinates.
\<close>

record 'g SamplerBall = "'g SamplerBase" +
  r :: double

definition SamplerBall_setBound :: "double \<Rightarrow> 'g SamplerBall \<Rightarrow> 'g SamplerBall" where
  "SamplerBall_setBound r' s = s\<lparr>r := r'\<rparr>"

definition SamplerSE3Euler_ball_sample ::
  "(double \<Rightarrow> double \<Rightarrow> 'g RNG \<Rightarrow> (error + double \<times> double \<times> double) \<times> 'g RNG) \<Rightarrow>
   (double \<times> double \<times> double \<times> double \<Rightarrow> double \<times> double \<times> double) \<Rightarrow>
   'g SamplerBall \<Rightarrow> (error + double list) \<times> 'g SamplerBall"
where
  "SamplerSE3Euler_ball_sample ball eulerAngles =
     andThen (\<lambda>s. with_rng (ball (Finite 0) (r s)) s) (\<lambda>(x, y, z).
     andThen (with_rng (total quaternion)) (\<lambda>quat.
     (case eulerAngles quat of (a0, a1, a2) \<Rightarrow>
     ret [x, y, z, a0, a1, a2])))"

definition SamplerSE3Quat_ball_sample ::
  "(double \<Rightarrow> double \<Rightarrow> 'g RNG \<Rightarrow> (error + double \<times> double \<times> double) \<times> 'g RNG) \<Rightarrow>
   'g SamplerBall \<Rightarrow> (error + double list) \<times> 'g SamplerBall"
where
  "SamplerSE3Quat_ball_sample ball =
     andThen (\<lambda>s. with_rng (ball (Finite 0) (r s)) s) (\<lambda>(x, y, z).
     andThen (with_rng (total quaternion)) (\<lambda>(s0, s1, s2, s3).
     ret [x, y, z, s0, s1, s2, s3]))"

subsection \<open>Vocabulary of the properties\<close>

text \<open>
  The values of type \<open>double\<close> among the reals: those that rounding leaves unchanged, below
  the overflow threshold.
\<close>

definition is_double :: "real \<Rightarrow> bool" where
  "is_double x \<longleftrightarrow> rne x = x \<and> \<bar>x\<bar> < 2 ^ 1024"

text \<open>
  The contract of the uniform distribution object: every value drawn is a \<open>double\<close> in
  \<open>[0,1)\<close>.
\<close>

fun unit_interval :: "double \<Rightarrow> bool" where
  "unit_interval (Finite u) = (is_double u \<and> 0 \<le> u \<and> u < 1)"
| "unit_interval PInf = False"
| "unit_interval NInf = False"
| "unit_interval NaN = False"

definition uniDist_ok :: "'g RNG \<Rightarrow> bool" where
  "uniDist_ok self \<longleftrightarrow> (\<forall>g. unit_interval (fst (uniDist self g)))"

definition half_open :: "double \<Rightarrow> double \<Rightarrow> double \<Rightarrow> bool" where
  "half_open lo hi x \<longleftrightarrow> dle lo x \<and> dlt x hi"

text \<open>
  A method of a sampler changes nothing but the engine: the state it leaves is the state it
  found, with the member \<open>rng\<close> replaced.
\<close>

definition only_rng ::
  "(('g, 'z) SamplerBase_scheme \<Rightarrow> 'a \<times> ('g, 'z) SamplerBase_scheme) \<Rightarrow> bool"
where
  "only_rng m \<longleftrightarrow> (\<forall>s. snd (m s) = s\<lparr>rng := rng (snd (m s))\<rparr>)"

text \<open>
  An engine for concrete runs. The generator state is the list of the numbers it will
  produce; the uniform distribution turns the next number \<open>n\<close> into the \<open>double\<close>
  \<open>(n mod 2^53) / 2^53\<close> of \<open>[0,1)\<close>, and the normal distribution into \<open>n\<close>; an exhausted
  generator produces 0.
\<close>

definition unit_double :: "nat \<Rightarrow> double" where
  "unit_double n = Finite (real (n mod 2 ^ 53) / 2 ^ 53)"

definition replay_rng :: "nat list \<Rightarrow> nat list RNG" where
  "replay_rng ns =
     \<lparr>generator = ns,
      uniDist = (\<lambda>g. case g of [] \<Rightarrow> (Finite 0, []) | n # g' \<Rightarrow> (unit_double n, g')),
      normalDist = (\<lambda>g. case g of [] \<Rightarrow> (Finite 0, []) | n # g' \<Rightarrow> (Finite (real n), g'))\<rparr>"

section \<open>Properties\<close>

subsection \<open>Rounding\<close>

lemma round_even_of_int [simp]: "round_even (of_int k) = k"
  by (simp add: round_even_def)

lemma round_even_cases: "round_even y = \<lfloor>y\<rfloor> \<or> round_even y = \<lfloor>y\<rfloor> + 1"
  by (simp add: round_even_def Let_def)

lemma round_even_mono: "x \<le> y \<Longrightarrow> round_even x \<le> round_even y"
proof -
  assume xy: "x \<le> y"
  then have fl: "\<lfloor>x\<rfloor> \<le> \<lfloor>y\<rfloor>" by (rule floor_mono)
  show ?thesis
  proof (cases "\<lfloor>x\<rfloor> = \<lfloor>y\<rfloor>")
    case True
    with xy show ?thesis by (auto simp: round_even_def Let_def)
  next
    case False
    with fl have "\<lfloor>x\<rfloor> + 1 \<le> \<lfloor>y\<rfloor>" by simp
    moreover have "round_even x \<le> \<lfloor>x\<rfloor> + 1" using round_even_cases[of x] by auto
    moreover have "\<lfloor>y\<rfloor> \<le> round_even y" using round_even_cases[of y] by auto
    ultimately show ?thesis by linarith
  qed
qed

lemma round_even_le: "y \<le> of_int k \<Longrightarrow> round_even y \<le> k"
  using round_even_mono[of y "of_int k"] by simp

lemma round_even_ge: "of_int k \<le> y \<Longrightarrow> k \<le> round_even y"
  using round_even_mono[of "of_int k" y] by simp

lemma two_powi_pos [simp]: "0 < (2::real) powi k"
  by simp

lemma two_powi_mono: "a \<le> b \<Longrightarrow> (2::real) powi a \<le> 2 powi b"
  by (rule power_int_increasing) simp_all

lemma two_powi_strict_mono: "a < b \<Longrightarrow> (2::real) powi a < 2 powi b"
  by (rule power_int_strict_increasing) simp_all

lemma two_powi_le_iff: "(2::real) powi a \<le> 2 powi b \<longleftrightarrow> a \<le> b"
  by (metis two_powi_mono two_powi_strict_mono not_le)

lemma two_powi_less_iff: "(2::real) powi a < 2 powi b \<longleftrightarrow> a < b"
  by (metis two_powi_mono two_powi_strict_mono not_le)

lemma floor_log2_eq:
  assumes "(2::real) powi e \<le> x" and "x < 2 powi (e + 1)"
  shows "\<lfloor>log 2 x\<rfloor> = e"
proof -
  have pos: "0 < x" using assms(1) two_powi_pos[of e] by linarith
  have "(2::real) powr real_of_int e \<le> x \<and> x < 2 powr (real_of_int e + 1)"
    using assms powr_real_of_int'[of 2 e] powr_real_of_int'[of 2 "e + 1"] by simp
  then show ?thesis using floor_log_eq_powr_iff[OF pos, of 2 e] by simp
qed

lemma floor_log2_bounds:
  assumes "0 < x"
  shows "(2::real) powi \<lfloor>log 2 x\<rfloor> \<le> x" and "x < 2 powi (\<lfloor>log 2 x\<rfloor> + 1)"
proof -
  have "(2::real) powr real_of_int \<lfloor>log 2 x\<rfloor> \<le> x \<and> x < 2 powr (real_of_int \<lfloor>log 2 x\<rfloor> + 1)"
    using floor_log_eq_powr_iff[OF assms, of 2 "\<lfloor>log 2 x\<rfloor>"] by simp
  then show "(2::real) powi \<lfloor>log 2 x\<rfloor> \<le> x" and "x < 2 powi (\<lfloor>log 2 x\<rfloor> + 1)"
    using powr_real_of_int'[of 2 "\<lfloor>log 2 x\<rfloor>"] powr_real_of_int'[of 2 "\<lfloor>log 2 x\<rfloor> + 1"] by simp_all
qed

lemma exponent_ge: "- 1022 \<le> exponent x"
  by (simp add: exponent_def)

lemma exponent_upper: "\<bar>x\<bar> < 2 powi (exponent x + 1)"
proof (cases "x = 0")
  case True
  then show ?thesis by simp
next
  case False
  then have pos: "0 < \<bar>x\<bar>" by simp
  have "\<bar>x\<bar> < 2 powi (\<lfloor>log 2 \<bar>x\<bar>\<rfloor> + 1)" by (rule floor_log2_bounds(2)[OF pos])
  also have "\<dots> \<le> 2 powi (exponent x + 1)"
    using False by (intro two_powi_mono) (simp add: exponent_def)
  finally show ?thesis .
qed

lemma exponent_lower: "- 1022 < exponent x \<Longrightarrow> 2 powi (exponent x) \<le> \<bar>x\<bar>"
proof -
  assume a: "- 1022 < exponent x"
  then have nz: "x \<noteq> 0" by (auto simp: exponent_def)
  then have pos: "0 < \<bar>x\<bar>" by simp
  from a nz have "exponent x = \<lfloor>log 2 \<bar>x\<bar>\<rfloor>" by (auto simp: exponent_def max_def split: if_splits)
  then show ?thesis using floor_log2_bounds(1)[OF pos] by simp
qed

lemma exponent_eqI:
  assumes "2 powi e \<le> \<bar>x\<bar>" and "\<bar>x\<bar> < 2 powi (e + 1)" and "- 1022 \<le> e"
  shows "exponent x = e"
proof -
  have "0 < \<bar>x\<bar>" using assms(1) two_powi_pos[of e] by linarith
  then have "x \<noteq> 0" by simp
  then show ?thesis using floor_log2_eq[OF assms(1,2)] assms(3) by (simp add: exponent_def)
qed

lemma exponent_subnormal:
  assumes "\<bar>x\<bar> < 2 powi (- 1022)"
  shows "exponent x = - 1022"
proof (rule ccontr)
  assume "exponent x \<noteq> - 1022"
  with exponent_ge[of x] have a: "- 1022 < exponent x" by simp
  have "(2::real) powi (- 1022) \<le> 2 powi (exponent x)" using a by (intro two_powi_mono) simp
  also have "\<dots> \<le> \<bar>x\<bar>" by (rule exponent_lower[OF a])
  finally show False using assms by simp
qed

lemma exponent_mono:
  assumes "\<bar>x\<bar> \<le> \<bar>y\<bar>"
  shows "exponent x \<le> exponent y"
proof (rule ccontr)
  assume "\<not> exponent x \<le> exponent y"
  then have lt: "exponent y + 1 \<le> exponent x" by simp
  with exponent_ge[of y] have a: "- 1022 < exponent x" by linarith
  have "\<bar>y\<bar> < 2 powi (exponent y + 1)" by (rule exponent_upper)
  also have "\<dots> \<le> 2 powi (exponent x)" using lt by (rule two_powi_mono)
  also have "\<dots> \<le> \<bar>x\<bar>" by (rule exponent_lower[OF a])
  finally show False using assms by simp
qed

lemma exponent_minus [simp]: "exponent (- x) = exponent x"
  by (simp add: exponent_def)

lemma round_even_0 [simp]: "round_even 0 = 0"
  using round_even_of_int[of 0] by simp

lemma rne_0 [simp]: "rne 0 = 0"
  by (simp add: rne_def)

lemma rne_eval:
  assumes "2 powi e \<le> \<bar>x\<bar>" and "\<bar>x\<bar> < 2 powi (e + 1)" and "- 1022 \<le> e"
  shows "rne x = 2 powi (e - 52) * of_int (round_even (x / 2 powi (e - 52)))"
  by (simp add: rne_def exponent_eqI[OF assms])

lemma rne_eval_subnormal:
  assumes "\<bar>x\<bar> < 2 powi (- 1022)"
  shows "rne x = 2 powi (- 1074) * of_int (round_even (x / 2 powi (- 1074)))"
  by (simp add: rne_def exponent_subnormal[OF assms])

lemma quantum_scale [simp]:
  "(2::real) powi (e - 52) * 9007199254740992 = 2 powi (e + 1)"
  "(2::real) powi (e - 52) * 4503599627370496 = 2 powi e"
proof -
  have "(2::real) powi (e - 52 + 53) = 2 powi (e - 52) * 2 powi 53"
    by (rule power_int_add) simp
  moreover have "e - 52 + 53 = e + 1" by simp
  ultimately show "(2::real) powi (e - 52) * 9007199254740992 = 2 powi (e + 1)" by simp
  have "(2::real) powi (e - 52 + 52) = 2 powi (e - 52) * 2 powi 52"
    by (rule power_int_add) simp
  then show "(2::real) powi (e - 52) * 4503599627370496 = 2 powi e" by simp
qed

lemma rne_le_grid:
  assumes "x \<le> 2 powi (exponent x - 52) * of_int k"
  shows "rne x \<le> 2 powi (exponent x - 52) * of_int k"
proof -
  let ?q = "(2::real) powi (exponent x - 52)"
  have "x / ?q \<le> of_int k" using assms by (simp add: field_simps)
  then have "round_even (x / ?q) \<le> k" by (rule round_even_le)
  then have "real_of_int (round_even (x / ?q)) \<le> of_int k" by (simp only: of_int_le_iff)
  then have "?q * real_of_int (round_even (x / ?q)) \<le> ?q * of_int k"
    by (intro mult_left_mono) simp_all
  then show ?thesis by (simp add: rne_def)
qed

lemma rne_ge_grid:
  assumes "2 powi (exponent x - 52) * of_int k \<le> x"
  shows "2 powi (exponent x - 52) * of_int k \<le> rne x"
proof -
  let ?q = "(2::real) powi (exponent x - 52)"
  have "of_int k \<le> x / ?q" using assms by (simp add: field_simps)
  then have "k \<le> round_even (x / ?q)" by (rule round_even_ge)
  then have "of_int k \<le> real_of_int (round_even (x / ?q))" by (simp only: of_int_le_iff)
  then have "?q * of_int k \<le> ?q * real_of_int (round_even (x / ?q))"
    by (intro mult_left_mono) simp_all
  then show ?thesis by (simp add: rne_def)
qed

lemma rne_nonneg: "0 \<le> x \<Longrightarrow> 0 \<le> rne x"
  using rne_ge_grid[of x 0] by simp

lemma rne_nonpos: "x \<le> 0 \<Longrightarrow> rne x \<le> 0"
  using rne_le_grid[of x 0] by simp

lemma rne_upper: "rne x \<le> 2 powi (exponent x + 1)"
proof -
  have "x \<le> 2 powi (exponent x + 1)" using exponent_upper[of x] by linarith
  then show ?thesis using rne_le_grid[of x "2 ^ 53"] by simp
qed

lemma rne_lower: "- (2 powi (exponent x + 1)) \<le> rne x"
proof -
  have "- (2 powi (exponent x + 1)) \<le> x" using exponent_upper[of x] by linarith
  then show ?thesis using rne_ge_grid[of x "- (2 ^ 53)"] by simp
qed

lemma rne_ge_binade:
  assumes "- 1022 < exponent x" and "0 \<le> x"
  shows "2 powi (exponent x) \<le> rne x"
proof -
  have "2 powi (exponent x) \<le> x" using exponent_lower[OF assms(1)] assms(2) by simp
  then show ?thesis using rne_ge_grid[of x "2 ^ 52"] by simp
qed

lemma rne_le_binade:
  assumes "- 1022 < exponent x" and "x \<le> 0"
  shows "rne x \<le> - (2 powi (exponent x))"
proof -
  have "x \<le> - (2 powi (exponent x))" using exponent_lower[OF assms(1)] assms(2) by simp
  then show ?thesis using rne_le_grid[of x "- (2 ^ 52)"] by simp
qed

lemma rne_same_binade:
  assumes "x \<le> y" and "exponent x = exponent y"
  shows "rne x \<le> rne y"
proof -
  let ?q = "(2::real) powi (exponent y - 52)"
  have "x / ?q \<le> y / ?q" using assms(1) by (simp add: divide_right_mono)
  then have "round_even (x / ?q) \<le> round_even (y / ?q)" by (rule round_even_mono)
  then have "?q * real_of_int (round_even (x / ?q)) \<le> ?q * real_of_int (round_even (y / ?q))"
    by (intro mult_left_mono) simp_all
  then show ?thesis by (simp add: rne_def assms(2))
qed

lemma rne_mono:
  assumes "x \<le> y"
  shows "rne x \<le> rne y"
proof -
  consider "0 \<le> x" | "y \<le> 0" | "x \<le> 0" "0 \<le> y" by linarith
  then show ?thesis
  proof cases
    case 1
    then have "\<bar>x\<bar> \<le> \<bar>y\<bar>" using assms by simp
    then have le: "exponent x \<le> exponent y" by (rule exponent_mono)
    show ?thesis
    proof (cases "exponent x = exponent y")
      case True
      then show ?thesis by (rule rne_same_binade[OF assms])
    next
      case False
      with le have lt: "exponent x + 1 \<le> exponent y" by simp
      with exponent_ge[of x] have a: "- 1022 < exponent y" by linarith
      have "rne x \<le> 2 powi (exponent x + 1)" by (rule rne_upper)
      also have "\<dots> \<le> 2 powi (exponent y)" using lt by (rule two_powi_mono)
      also have "\<dots> \<le> rne y" using a 1 assms by (intro rne_ge_binade) simp_all
      finally show ?thesis .
    qed
  next
    case 2
    then have "\<bar>y\<bar> \<le> \<bar>x\<bar>" using assms by simp
    then have le: "exponent y \<le> exponent x" by (rule exponent_mono)
    show ?thesis
    proof (cases "exponent x = exponent y")
      case True
      then show ?thesis by (rule rne_same_binade[OF assms])
    next
      case False
      with le have lt: "exponent y + 1 \<le> exponent x" by simp
      with exponent_ge[of y] have a: "- 1022 < exponent x" by linarith
      have "rne x \<le> - (2 powi (exponent x))" using a 2 assms by (intro rne_le_binade) simp_all
      also have "\<dots> \<le> - (2 powi (exponent y + 1))" using two_powi_mono[OF lt] by simp
      also have "\<dots> \<le> rne y" by (rule rne_lower)
      finally show ?thesis .
    qed
  next
    case 3
    then show ?thesis using rne_nonpos[of x] rne_nonneg[of y] by linarith
  qed
qed

lemma exponent_dyadic:
  assumes "\<bar>k\<bar> < 2 ^ 53" and "- 1074 \<le> j"
  shows "exponent (of_int k * 2 powi j) \<le> j + 52"
proof (rule ccontr)
  let ?x = "real_of_int k * 2 powi j"
  assume "\<not> exponent ?x \<le> j + 52"
  then have big: "j + 53 \<le> exponent ?x" by simp
  with assms(2) have a: "- 1022 < exponent ?x" by linarith
  have "real_of_int \<bar>k\<bar> < real_of_int (2 ^ 53)" using assms(1) by (simp only: of_int_less_iff)
  then have "\<bar>real_of_int k\<bar> < 2 powi 53" by simp
  then have "\<bar>real_of_int k\<bar> * 2 powi j < 2 powi 53 * 2 powi j"
    by (intro mult_strict_right_mono) simp_all
  also have "\<dots> = 2 powi (53 + j)" by (rule power_int_add[symmetric]) simp
  also have "\<dots> \<le> 2 powi (exponent ?x)" using big by (intro two_powi_mono) simp
  also have "\<dots> \<le> \<bar>?x\<bar>" by (rule exponent_lower[OF a])
  finally show False by (simp add: abs_mult)
qed

lemma rne_exact:
  assumes "\<bar>k\<bar> < 2 ^ 53" and "- 1074 \<le> j"
  shows "rne (of_int k * 2 powi j) = of_int k * 2 powi j"
proof -
  define x where "x = real_of_int k * 2 powi j"
  define q where "q = (2::real) powi (exponent x - 52)"
  define n where "n = nat (j + 52 - exponent x)"
  have qpos: "0 < q" by (simp add: q_def)
  have nn: "int n = j + 52 - exponent x"
    using exponent_dyadic[OF assms] by (simp add: n_def x_def)
  have "(2::real) powi j = 2 powi (exponent x - 52 + int n)" by (simp add: nn)
  also have "\<dots> = 2 powi (exponent x - 52) * 2 powi (int n)"
    by (rule power_int_add) simp
  finally have pj: "(2::real) powi j = q * 2 ^ n" by (simp add: q_def)
  have xq: "x = q * real_of_int (k * 2 ^ n)" by (simp add: x_def pj)
  then have "x / q = real_of_int (k * 2 ^ n)" using qpos by simp
  then have "round_even (x / q) = k * 2 ^ n" by (simp only: round_even_of_int)
  then have "rne x = q * real_of_int (k * 2 ^ n)" by (simp only: rne_def q_def)
  also have "\<dots> = x" by (rule xq[symmetric])
  finally show ?thesis unfolding x_def .
qed

lemma rne_of_int: "\<bar>k\<bar> < 2 ^ 53 \<Longrightarrow> rne (of_int k) = of_int k"
  using rne_exact[of k 0] by simp

lemma rne_of_nat_numeral:
  "(numeral n :: int) < 2 ^ 53 \<Longrightarrow> rne (numeral n) = numeral n"
  using rne_of_int[of "numeral n"] by simp

lemma rne_1 [simp]: "rne 1 = 1"
  using rne_of_int[of 1] by simp

lemma to_double_finite: "\<bar>rne x\<bar> < 2 ^ 1024 \<Longrightarrow> to_double x = Finite (rne x)"
  by (auto simp: to_double_def Let_def)

lemma to_double_exact: "rne x = x \<Longrightarrow> \<bar>x\<bar> < 2 ^ 1024 \<Longrightarrow> to_double x = Finite x"
  using to_double_finite[of x] by simp

lemma to_double_is_double: "is_double x \<Longrightarrow> to_double x = Finite x"
  by (simp add: is_double_def to_double_exact)

lemma is_double_dyadic:
  assumes "\<bar>k\<bar> < 2 ^ 53" and "- 1074 \<le> j" and "j \<le> 970"
  shows "is_double (of_int k * 2 powi j)"
proof -
  have "real_of_int \<bar>k\<bar> < real_of_int (2 ^ 53)" using assms(1) by (simp only: of_int_less_iff)
  then have k: "\<bar>real_of_int k\<bar> < 2 ^ 53" by simp
  have "(2::real) powi j \<le> 2 powi 970" using assms(3) by (rule two_powi_mono)
  then have j: "(2::real) powi j \<le> 2 ^ 970" by simp
  have "\<bar>real_of_int k * 2 powi j\<bar> = \<bar>real_of_int k\<bar> * 2 powi j" by (simp add: abs_mult)
  also have "\<dots> \<le> \<bar>real_of_int k\<bar> * 2 ^ 970" using j by (intro mult_left_mono) simp_all
  also have "\<dots> < 2 ^ 53 * 2 ^ 970" using k by (intro mult_strict_right_mono) simp_all
  also have "\<dots> = (2::real) ^ 1023" by (simp flip: power_add)
  also have "\<dots> < (2::real) ^ 1024" by (intro power_strict_increasing) simp_all
  finally show ?thesis using rne_exact[OF assms(1,2)] by (simp add: is_double_def)
qed

lemma is_double_int: "\<bar>k\<bar> < 2 ^ 53 \<Longrightarrow> is_double (of_int k)"
  using is_double_dyadic[of k 0] by simp

lemma is_double_fraction:
  "\<bar>k\<bar> < 2 ^ 53 \<Longrightarrow> n \<le> 1074 \<Longrightarrow> is_double (of_int k / 2 ^ n)"
  using is_double_dyadic[of k "- int n"] by (simp add: power_int_minus field_simps)

subsection \<open>Values of operations and of the engine for concrete runs\<close>

lemma to_double_0 [simp]: "to_double 0 = Finite 0"
  by (simp add: to_double_exact)

lemma to_double_1 [simp]: "to_double 1 = Finite 1"
  by (simp add: to_double_exact)

lemma to_double_numeral:
  "(numeral n :: int) < 2 ^ 53 \<Longrightarrow> to_double (numeral n) = Finite (numeral n)"
  using to_double_is_double[OF is_double_int[of "numeral n"]] by simp

lemma to_double_neg_numeral:
  "(numeral n :: int) < 2 ^ 53 \<Longrightarrow> to_double (- numeral n) = Finite (- numeral n)"
  using to_double_is_double[OF is_double_int[of "- numeral n"]] by simp

lemma is_double_unit: "is_double (real (n mod 2 ^ 53) / 2 ^ 53)"
proof -
  have "int (n mod 2 ^ 53) < 2 ^ 53"
    by (metis mod_less_divisor of_nat_less_iff of_nat_numeral of_nat_power zero_less_numeral zero_less_power)
  then have "\<bar>int (n mod 2 ^ 53)\<bar> < 2 ^ 53" by simp
  moreover have "(53::nat) \<le> 1074" by simp
  ultimately have "is_double (real_of_int (int (n mod 2 ^ 53)) / 2 ^ 53)"
    by (rule is_double_fraction)
  then show ?thesis by (simp only: of_int_of_nat_eq)
qed

lemma unit_interval_unit_double: "unit_interval (unit_double n)"
proof -
  have "n mod 2 ^ 53 < 2 ^ 53" by simp
  then have "real (n mod 2 ^ 53) < 2 ^ 53"
    by (metis of_nat_less_iff of_nat_numeral of_nat_power)
  then have c: "real (n mod 2 ^ 53) / 2 ^ 53 < 1" by simp
  have b: "0 \<le> real (n mod 2 ^ 53) / 2 ^ 53" by simp
  have a: "is_double (real (n mod 2 ^ 53) / 2 ^ 53)" by (rule is_double_unit)
  show ?thesis unfolding unit_double_def unit_interval.simps using a b c by blast
qed

lemma uniDist_ok_replay: "uniDist_ok (replay_rng ns)"
  by (auto simp: uniDist_ok_def replay_rng_def unit_interval_unit_double is_double_def
      split: list.splits)

lemma uniform01_replay:
  "uniform01 (replay_rng (n # ns)) = (unit_double n, replay_rng ns)"
  "uniform01 (replay_rng []) = (Finite 0, replay_rng [])"
  by (simp_all add: uniform01_def replay_rng_def)

lemma uniformReal_returns:
  "dle lo hi \<Longrightarrow>
   uniformReal lo hi self
     = (Inr (fadd (fmul (fsub hi lo) (fst (uniform01 self))) lo), snd (uniform01 self))"
  by (simp add: uniformReal_def uniform01_def split: prod.splits)

lemma uniformReal_assert:
  "\<not> dle lo hi \<Longrightarrow> uniformReal lo hi self = (Inl AssertionFailed, self)"
  by (simp add: uniformReal_def)

lemma fmul_one_unit: "fmul (Finite 1) (unit_double n) = unit_double n"
  unfolding unit_double_def fmul.simps mult_1
  by (rule to_double_is_double[OF is_double_unit])

lemma unit_double_values:
  "unit_double 0 = Finite 0"
  "unit_double 2251799813685248 = Finite (1 / 4)"
  "unit_double 4503599627370496 = Finite (1 / 2)"
  "unit_double 6755399441055744 = Finite (3 / 4)"
  by (simp_all add: unit_double_def)

text \<open>The largest \<open>double\<close> below 1 is the draw for \<open>n = 2^53 - 1\<close>.\<close>

lemma unit_double_max: "unit_double 9007199254740991 = Finite (1 - 1 / 2 ^ 53)"
  by (simp add: unit_double_def)

lemma rne_below_2: "rne (2 - 1 / 2 ^ 53) = 2"
proof -
  have "rne (2 - 1 / 2 ^ 53)
      = 2 powi (0 - 52) * of_int (round_even ((2 - 1 / 2 ^ 53) / 2 powi (0 - 52)))"
    by (rule rne_eval) simp_all
  also have "(2 - 1 / 2 ^ 53) / 2 powi (0 - 52) = (18014398509481983 / 2 :: real)" by simp
  also have "round_even (18014398509481983 / 2) = 9007199254740992"
    by (simp add: round_even_def Let_def)
  finally show ?thesis by simp
qed

lemma fadd_max_unit_1: "fadd (unit_double 9007199254740991) (Finite 1) = Finite 2"
proof -
  have "real (9007199254740991 mod 2 ^ 53) / 2 ^ 53 + 1 = 2 - 1 / 2 ^ 53" by simp
  then have "fadd (unit_double 9007199254740991) (Finite 1) = to_double (2 - 1 / 2 ^ 53)"
    by (simp only: unit_double_def fadd.simps)
  also have "\<dots> = Finite 2"
  proof -
    have "\<bar>rne (2 - 1 / 2 ^ 53)\<bar> < 2 ^ 1024" unfolding rne_below_2 by simp
    from to_double_finite[OF this] show ?thesis unfolding rne_below_2 .
  qed
  finally show ?thesis .
qed

lemmas run_defs = andThen_def ret_def rd_def vec_at_def with_rng_def total_def

lemma uniformReal_1_2_max:
  "uniformReal (Finite 1) (Finite 2) (replay_rng (9007199254740991 # ns))
     = (Inr (Finite 2), replay_rng ns)"
proof -
  have s1: "fsub (Finite 2) (Finite 1) = Finite 1" by (simp add: fsub_def)
  have "uniformReal (Finite 1) (Finite 2) (replay_rng (9007199254740991 # ns))
      = (Inr (fadd (fmul (fsub (Finite 2) (Finite 1)) (unit_double 9007199254740991)) (Finite 1)),
         replay_rng ns)"
    by (simp add: uniformReal_returns uniform01_replay)
  also have "\<dots> = (Inr (Finite 2), replay_rng ns)"
    by (simp only: s1 fmul_one_unit fadd_max_unit_1)
  finally show ?thesis .
qed

lemma uniformReal_1_2_zero:
  "uniformReal (Finite 1) (Finite 2) (replay_rng (0 # ns)) = (Inr (Finite 1), replay_rng ns)"
  by (simp add: uniformReal_returns uniform01_replay fsub_def unit_double_values)

lemma rne_below_2_31: "rne (2147483648 - 1 / 2 ^ 53) = 2147483648"
proof -
  have "rne (2147483648 - 1 / 2 ^ 53)
      = 2 powi (30 - 52) * of_int (round_even ((2147483648 - 1 / 2 ^ 53) / 2 powi (30 - 52)))"
    by (rule rne_eval) simp_all
  also have "round_even ((2147483648 - 1 / 2 ^ 53) / 2 powi (30 - 52)) = 9007199254740992"
    by (simp add: round_even_def Let_def)
  finally show ?thesis by simp
qed

lemma fadd_max_unit_int_max:
  "fadd (unit_double 9007199254740991) (Finite 2147483647) = Finite 2147483648"
proof -
  have "real (9007199254740991 mod 2 ^ 53) / 2 ^ 53 + 2147483647 = 2147483648 - 1 / 2 ^ 53"
    by simp
  then have "fadd (unit_double 9007199254740991) (Finite 2147483647)
      = to_double (2147483648 - 1 / 2 ^ 53)"
    by (simp only: unit_double_def fadd.simps)
  also have "\<dots> = Finite 2147483648"
  proof -
    have "\<bar>rne (2147483648 - 1 / 2 ^ 53)\<bar> < 2 ^ 1024" unfolding rne_below_2_31 by simp
    from to_double_finite[OF this] show ?thesis unfolding rne_below_2_31 .
  qed
  finally show ?thesis .
qed

lemmas loop_eval = SamplerR_sample_def SamplerR_loop.simps SamplerR_body_def run_defs vec_set_def

lemma pi64_bounds: "3 < pi64" "pi64 < 4"
  by (simp_all add: pi64_def)

lemma is_double_pi64:
  "is_double pi64" "is_double (- pi64)" "is_double (2 * pi64)" "is_double (pi64 - 1 / 2 ^ 50)"
proof -
  have a: "is_double (real_of_int 884279719003555 / 2 ^ 48)" by (rule is_double_fraction) simp_all
  have b: "is_double (real_of_int (- 884279719003555) / 2 ^ 48)" by (rule is_double_fraction) simp_all
  have c: "is_double (real_of_int 884279719003555 / 2 ^ 47)" by (rule is_double_fraction) simp_all
  have d: "is_double (real_of_int 3537118876014219 / 2 ^ 50)" by (rule is_double_fraction) simp_all
  show "is_double pi64" using a by (simp add: pi64_def)
  show "is_double (- pi64)" using b by (simp add: pi64_def)
  have "2 * pi64 = real_of_int 884279719003555 / 2 ^ 47" by (simp add: pi64_def)
  then show "is_double (2 * pi64)" using c by (simp only:)
  have "pi64 - 1 / 2 ^ 50 = real_of_int 3537118876014219 / 2 ^ 50" by (simp add: pi64_def)
  then show "is_double (pi64 - 1 / 2 ^ 50)" using d by (simp only:)
qed

lemmas to_double_pi64 = is_double_pi64[THEN to_double_is_double]

lemma two_pi: "fmul (Finite 2) constants_pi = Finite (2 * pi64)"
  by (simp add: constants_pi_def to_double_pi64)

lemma quaternion_zero:
  "quaternion (replay_rng (0 # 0 # 0 # ns))
     = ((Finite 0, Finite 1, Finite 0, Finite 0), replay_rng ns)"
proof -
  have a: "fmul (fmul (Finite 2) constants_pi) (Finite 0) = Finite 0"
    unfolding two_pi by simp
  show ?thesis
    by (simp add: quaternion_def uniform01_replay unit_double_values a fsub_def)
qed

lemma unit_interval_max:
  assumes "is_double u" and "0 \<le> u" and "u < 1"
  shows "u \<le> 1 - 1 / 2 ^ 53"
proof (rule ccontr)
  assume "\<not> u \<le> 1 - 1 / 2 ^ 53"
  then have big: "1 - 1 / 2 ^ 53 < u" by simp
  define m where "m = round_even (u / 2 powi (- 1 - 52))"
  have "rne u = 2 powi (- 1 - 52) * of_int (round_even (u / 2 powi (- 1 - 52)))"
    using big assms(3) by (intro rne_eval) (simp_all add: power_int_minus)
  then have "u = 2 powi (- 53) * of_int m" using assms(1) by (simp add: is_double_def m_def)
  then have um: "u = real_of_int m / 2 ^ 53" by (simp add: power_int_minus field_simps)
  from big have "2 ^ 53 - 1 < u * 2 ^ 53" by (simp add: field_simps)
  then have "real_of_int (2 ^ 53 - 1) < real_of_int m" unfolding um by simp
  then have lo: "2 ^ 53 - 1 < m" by (simp only: of_int_less_iff)
  from assms(3) have "real_of_int m < real_of_int (2 ^ 53)" unfolding um by simp
  then have "m < 2 ^ 53" by (simp only: of_int_less_iff)
  with lo show False by simp
qed

lemma pi_width: "fsub constants_pi (dneg constants_pi) = Finite (2 * pi64)"
  by (simp add: constants_pi_def fsub_def to_double_pi64)

lemma rne_two_pi_max:
  "rne ((2 * pi64) * (1 - 1 / 2 ^ 53)) = 2 * pi64 - 1 / 2 ^ 50"
proof -
  have "rne ((2 * pi64) * (1 - 1 / 2 ^ 53))
      = 2 powi (2 - 52) * of_int (round_even (((2 * pi64) * (1 - 1 / 2 ^ 53)) / 2 powi (2 - 52)))"
    by (rule rne_eval) (simp_all add: pi64_def)
  also have "round_even (((2 * pi64) * (1 - 1 / 2 ^ 53)) / 2 powi (2 - 52)) = 7074237752028439"
    by (simp add: round_even_def Let_def pi64_def)
  finally show ?thesis by (simp add: pi64_def)
qed

lemma heading_range:
  assumes "unit_interval u"
  shows "\<exists>h. fadd (fmul (fsub constants_pi (dneg constants_pi)) u) (dneg constants_pi) = Finite h
           \<and> - pi64 \<le> h \<and> h < pi64"
proof -
  obtain v where u: "u = Finite v" and dv: "is_double v" and v0: "0 \<le> v" and v1: "v < 1"
    using assms by (cases u) auto
  have vmax: "v \<le> 1 - 1 / 2 ^ 53" by (rule unit_interval_max[OF dv v0 v1])
  have width: "fsub constants_pi (dneg constants_pi) = Finite (2 * pi64)"
    by (rule pi_width)
  define t where "t = rne ((2 * pi64) * v)"
  have pos: "0 \<le> 2 * pi64" using pi64_bounds by simp
  have "rne 0 \<le> t" unfolding t_def using pos v0 by (intro rne_mono) simp
  then have t0: "0 \<le> t" by simp
  have "(2 * pi64) * v \<le> (2 * pi64) * (1 - 1 / 2 ^ 53)"
    using pos vmax by (rule mult_left_mono[rotated])
  then have "t \<le> rne ((2 * pi64) * (1 - 1 / 2 ^ 53))" unfolding t_def by (rule rne_mono)
  then have t1: "t \<le> 2 * pi64 - 1 / 2 ^ 50" by (simp only: rne_two_pi_max)
  have "\<bar>t\<bar> < 2 ^ 1024"
  proof -
    have "\<bar>t\<bar> \<le> 8" using t0 t1 pi64_bounds by simp
    also have "(8::real) < 2 ^ 1024" by simp
    finally show ?thesis .
  qed
  then have prod: "fmul (Finite (2 * pi64)) (Finite v) = Finite t"
    unfolding t_def fmul.simps by (rule to_double_finite)
  define h where "h = rne (t - pi64)"
  have "rne (- pi64) \<le> h" unfolding h_def using t0 by (intro rne_mono) simp
  then have h0: "- pi64 \<le> h" using is_double_pi64(2) by (simp add: is_double_def)
  have "h \<le> rne (pi64 - 1 / 2 ^ 50)" unfolding h_def using t1 by (intro rne_mono) simp
  then have h1: "h \<le> pi64 - 1 / 2 ^ 50" using is_double_pi64(4) by (simp add: is_double_def)
  have "\<bar>h\<bar> < 2 ^ 1024"
  proof -
    have "\<bar>h\<bar> \<le> 4" using h0 h1 pi64_bounds by simp
    also have "(4::real) < 2 ^ 1024" by simp
    finally show ?thesis .
  qed
  then have td: "to_double (t - pi64) = Finite h" unfolding h_def by (rule to_double_finite)
  have "fadd (fmul (fsub constants_pi (dneg constants_pi)) u) (dneg constants_pi) = Finite h"
    unfolding width u prod by (simp add: constants_pi_def td)
  moreover have "h < pi64" using h1 by simp
  ultimately show ?thesis using h0 by blast
qed

lemma disk_uniDist: "uniDist (snd (disk a b g)) = uniDist g"
  by (simp add: disk_def andThen_def ret_def uniformReal_def split: prod.splits)

lemma uniDist_uniform01 [simp]: "uniDist (snd (uniform01 self)) = uniDist self"
  by (simp add: uniform01_def split: prod.splits)

lemma uniform01_unit: "uniDist_ok self \<Longrightarrow> unit_interval (fst (uniform01 self))"
  by (simp add: uniDist_ok_def uniform01_def split: prod.splits) (metis fst_conv)

lemma dle_pi: "dle (dneg constants_pi) constants_pi"
  using pi64_bounds by (simp add: constants_pi_def)

lemma disk_returns:
  assumes "dle (fmul rmin rmin) (fmul rmax rmax)"
  shows "\<exists>x y. disk rmin rmax g = (Inr (x, y), snd (uniform01 (snd (uniform01 g))))"
proof -
  have "dle (Finite 0) (fmul (Finite 2) constants_pi)"
    unfolding two_pi using pi64_bounds by simp
  then show ?thesis
    using assms by (simp add: disk_def andThen_def ret_def uniformReal_returns)
qed

lemma disk_run:
  "disk (Finite 0) (Finite 2) (replay_rng (0 # 2251799813685248 # ns))
     = (Inr (Finite 1, Finite 0), replay_rng ns)"
proof -
  have le: "dle (Finite 0) (Finite (2 * pi64))" using pi64_bounds by simp
  have theta: "uniformReal (Finite 0) (Finite (2 * pi64)) (replay_rng (0 # 2251799813685248 # ns))
      = (Inr (Finite 0), replay_rng (2251799813685248 # ns))"
    by (simp add: uniformReal_returns[OF le] uniform01_replay unit_double_values fsub_def
        to_double_pi64)
  have four: "fmul (Finite 2) (Finite 2) = Finite 4" by (simp add: to_double_numeral)
  have zero: "fmul (Finite 0) (Finite 0) = Finite 0" by simp
  have a: "uniformReal (Finite 0) (Finite 4) (replay_rng (2251799813685248 # ns))
      = (Inr (Finite 1), replay_rng ns)"
    by (simp add: uniformReal_returns uniform01_replay unit_double_values fsub_def
        to_double_numeral)
  show ?thesis
    unfolding disk_def two_pi four zero by (simp add: andThen_def ret_def theta a)
qed

lemma heading_run:
  "uniformReal (dneg constants_pi) constants_pi (replay_rng (4503599627370496 # ns))
     = (Inr (Finite 0), replay_rng ns)"
proof -
  have "fadd (fmul (fsub constants_pi (dneg constants_pi)) (Finite (1 / 2))) (dneg constants_pi)
      = Finite 0"
    unfolding pi_width by (simp add: constants_pi_def to_double_pi64)
  then show ?thesis
    by (simp add: uniformReal_returns[OF dle_pi] uniform01_replay unit_double_values)
qed

subsection \<open>uniformReal\<close>

text \<open>
  C4. The claim, like the comment of \<open>uniformReal\<close>, has the value returned for
  \<open>lo \<le> hi\<close> in the half-open interval \<open>[lo, hi)\<close>. The code does not keep the upper bound
  out: with the bounds 1 and 2 and the uniform draw \<open>1 - 2^-53\<close>, the largest \<open>double\<close> below
  1, the assertion holds, the exact value \<open>(2 - 1) * u + 1 = 2 - 2^-53\<close> lies halfway between
  two \<open>double\<close>s and rounds to 2, and \<open>uniformReal\<close> returns the upper bound 2, which is not in
  \<open>[1, 2)\<close>.
\<close>

theorem uniformReal_reaches_upper_bound:
  "uniDist_ok (replay_rng [9007199254740991])
   \<and> fst (uniform01 (replay_rng [9007199254740991])) = Finite (1 - 1 / 2 ^ 53)
   \<and> dle (Finite 1) (Finite 2)
   \<and> uniformReal (Finite 1) (Finite 2) (replay_rng [9007199254740991])
       = (Inr (Finite 2), replay_rng [])
   \<and> \<not> half_open (Finite 1) (Finite 2) (Finite 2)"
proof -
  have s1: "fsub (Finite 2) (Finite 1) = Finite 1" by (simp add: fsub_def)
  have "uniformReal (Finite 1) (Finite 2) (replay_rng [9007199254740991])
      = (Inr (fadd (fmul (fsub (Finite 2) (Finite 1)) (unit_double 9007199254740991)) (Finite 1)),
         replay_rng [])"
    by (simp add: uniformReal_returns uniform01_replay)
  also have "\<dots> = (Inr (Finite 2), replay_rng [])"
    by (simp only: s1 fmul_one_unit fadd_max_unit_1)
  finally show ?thesis
    by (simp add: uniDist_ok_replay half_open_def uniform01_replay unit_double_def)
qed

subsection \<open>uniformInt\<close>

text \<open>
  C3. The claim has \<open>uniformInt(lo, hi)\<close> return an integer of \<open>[lo, hi]\<close> for all \<open>lo \<le> hi\<close>.
  The code does not at \<open>lo = hi = 2147483647\<close> (\<open>INT_MAX\<close>) with the uniform draw \<open>1 - 2^-53\<close>:
  \<open>uniformReal(2147483647.0, 2147483648.0)\<close> returns \<open>2147483648.0\<close> (the exact value
  \<open>2^31 - 2^-53\<close> rounds to \<open>2^31\<close>), its floor does not fit an \<open>int\<close>, and the conversion
  \<open>(int)\<close> is made before the comparison with \<open>upper_bound\<close>: no integer of \<open>[lo, hi]\<close> is
  returned.
\<close>

theorem uniformInt_overflows_at_INT_MAX:
  "uniDist_ok (replay_rng [9007199254740991])
   \<and> sint (2147483647 :: 32 word) \<le> sint (2147483647 :: 32 word)
   \<and> uniformReal (double_of_int 2147483647) (fadd (double_of_int 2147483647) (Finite 1))
        (replay_rng [9007199254740991])
       = (Inr (Finite 2147483648), replay_rng [])
   \<and> uniformInt 2147483647 2147483647 (replay_rng [9007199254740991])
       = (Inl ConversionOutOfRange, replay_rng [])"
proof -
  have lo: "double_of_int 2147483647 = Finite 2147483647" by (simp add: double_of_int_def)
  have hi: "fadd (Finite 2147483647) (Finite 1) = Finite 2147483648"
    by (simp add: to_double_numeral)
  have s1: "fsub (Finite 2147483648) (Finite 2147483647) = Finite 1" by (simp add: fsub_def)
  have "uniformReal (Finite 2147483647) (Finite 2147483648) (replay_rng [9007199254740991])
      = (Inr (fadd (fmul (fsub (Finite 2147483648) (Finite 2147483647))
                     (unit_double 9007199254740991)) (Finite 2147483647)),
         replay_rng [])"
    by (simp add: uniformReal_returns uniform01_replay)
  also have "\<dots> = (Inr (Finite 2147483648), replay_rng [])"
    by (simp only: s1 fmul_one_unit fadd_max_unit_int_max)
  finally have ur: "uniformReal (Finite 2147483647) (Finite 2147483648)
      (replay_rng [9007199254740991]) = (Inr (Finite 2147483648), replay_rng [])" .
  have "uniformInt 2147483647 2147483647 (replay_rng [9007199254740991])
      = (Inl ConversionOutOfRange, replay_rng [])"
    unfolding uniformInt_def lo hi by (simp add: andThen_def ur)
  with ur show ?thesis unfolding lo hi by (simp add: uniDist_ok_replay)
qed

text \<open>
  Below \<open>INT_MAX\<close> the comparison does its work: \<open>uniformInt(1, 1)\<close> at the same draw gets
  \<open>uniformReal(1.0, 2.0) = 2.0\<close>, floor 2, and returns 1.
\<close>

lemma uniformInt_clamp:
  "uniformInt 1 1 (replay_rng [9007199254740991]) = (Inr 1, replay_rng [])"
proof -
  have lo: "double_of_int 1 = Finite 1" by (simp add: double_of_int_def)
  have hi: "fadd (Finite 1) (Finite 1) = Finite 2" by (simp add: to_double_numeral)
  show ?thesis
    unfolding uniformInt_def lo hi by (simp add: andThen_def ret_def uniformReal_1_2_max)
qed

subsection \<open>SamplerR\<close>

text \<open>
  C5. The claim has every component \<open>i\<close> of a sample of \<open>SamplerR<N>\<close> in
  \<open>[lower_bound[i], upper_bound[i])\<close> when \<open>lower_bound[i] \<le> upper_bound[i]\<close>. The code does not
  keep the upper bound out: for \<open>N = 1\<close>, the bounds \<open>(1)\<close> and \<open>(2)\<close> and the uniform draw
  \<open>1 - 2^-53\<close>, \<open>sample()\<close> returns \<open>(2)\<close>, and 2 is not in \<open>[1, 2)\<close>.
\<close>

theorem SamplerR_sample_reaches_upper_bound:
  "declared 1 (Sampler_bounds [Finite 1] [Finite 2] (replay_rng [9007199254740991]))
   \<and> uniDist_ok (replay_rng [9007199254740991])
   \<and> dle (Finite 1) (Finite 2)
   \<and> SamplerR_sample 1 (Sampler_bounds [Finite 1] [Finite 2] (replay_rng [9007199254740991]))
       = (Inr [Finite 2], Sampler_bounds [Finite 1] [Finite 2] (replay_rng []))
   \<and> \<not> half_open (Finite 1) (Finite 2) (Finite 2)"
  by (simp add: declared_def Sampler_bounds_def uniDist_ok_replay loop_eval uniformReal_1_2_max
      half_open_def)

subsection \<open>SamplerSE2\<close>

text \<open>
  C2. On a \<open>SamplerSE2\<close> with bounds of the declared size 2, \<open>sample()\<close> passes
  \<open>lower_bound[1]\<close> as the upper bound of the draw of the x-coordinate (the assertion of
  \<open>uniformReal\<close> compares \<open>lower_bound[0]\<close> with \<open>lower_bound[1]\<close>), and, when that draw is made,
  reads \<open>lower_bound[2]\<close> for the draw of the y-coordinate: index 2 on a vector of 2 elements.
  So not every access to a bound vector is within the declared range.
\<close>

theorem SamplerSE2_sample_index:
  assumes "declared 2 s"
  shows "SamplerSE2_sample s =
           (if dle (lower_bound s ! 0) (lower_bound s ! 1)
            then (Inl (IndexOutOfRange 2 2), s\<lparr>rng := snd (uniform01 (rng s))\<rparr>)
            else (Inl AssertionFailed, s))"
  using assms
  by (simp add: declared_def SamplerSE2_sample_def run_defs uniformReal_returns uniformReal_assert)

text \<open>
  Two runs of C2's theorem, on boxes that are valid (\<open>lower \<le> upper\<close> component-wise):
  \<open>lower = (3, 1)\<close> fails the assertion of the x draw, \<open>lower = (0, 1)\<close> makes the x draw and
  fails at \<open>lower_bound[2]\<close>.
\<close>

theorem SamplerSE2_sample_index_witness:
  "declared 2 (Sampler_bounds [Finite 3, Finite 1] [Finite 5, Finite 5] (replay_rng [0]))
   \<and> SamplerSE2_sample (Sampler_bounds [Finite 3, Finite 1] [Finite 5, Finite 5] (replay_rng [0]))
       = (Inl AssertionFailed,
          Sampler_bounds [Finite 3, Finite 1] [Finite 5, Finite 5] (replay_rng [0]))
   \<and> declared 2 (Sampler_bounds [Finite 0, Finite 1] [Finite 5, Finite 5] (replay_rng [0]))
   \<and> SamplerSE2_sample (Sampler_bounds [Finite 0, Finite 1] [Finite 5, Finite 5] (replay_rng [0]))
       = (Inl (IndexOutOfRange 2 2),
          Sampler_bounds [Finite 0, Finite 1] [Finite 5, Finite 5] (replay_rng []))"
proof -
  have d1: "declared 2 (Sampler_bounds [Finite 3, Finite 1] [Finite 5, Finite 5] (replay_rng [0]))"
    by (simp add: declared_def Sampler_bounds_def)
  have d2: "declared 2 (Sampler_bounds [Finite 0, Finite 1] [Finite 5, Finite 5] (replay_rng [0]))"
    by (simp add: declared_def Sampler_bounds_def)
  from SamplerSE2_sample_index[OF d1] SamplerSE2_sample_index[OF d2] d1 d2
  show ?thesis by (simp add: Sampler_bounds_def uniform01_replay)
qed

text \<open>
  C1. The specification has the position drawn from the box given by both bounds: \<open>x\<close> from
  \<open>[lower_bound[0], upper_bound[0])\<close>, \<open>y\<close> from \<open>[lower_bound[1], upper_bound[1])\<close>, and the
  heading from \<open>[-pi, pi)\<close>. The code does not do this: on the box \<open>lower = (0, 1)\<close>,
  \<open>upper = (5, 5)\<close> it draws \<open>x\<close> with the bounds \<open>lower_bound[0] = 0\<close> and \<open>lower_bound[1] = 1\<close>
  (one draw is consumed) and then fails at \<open>lower_bound[2]\<close>; no vector is returned.
\<close>

theorem SamplerSE2_sample_box:
  "SamplerSE2_sample (Sampler_bounds [Finite 0, Finite 1] [Finite 5, Finite 5] (replay_rng [0]))
     = (Inl (IndexOutOfRange 2 2),
        Sampler_bounds [Finite 0, Finite 1] [Finite 5, Finite 5] (replay_rng []))"
  by (simp add: SamplerSE2_sample_def run_defs Sampler_bounds_def uniformReal_returns
      uniform01_replay)

text \<open>
  C10. The claim has two \<open>SamplerSE2\<close> with equal \<open>lower_bound\<close>, engines in the same state
  and different \<open>upper_bound\<close> return identical 3-vectors. The code returns no 3-vector: with
  \<open>lower = (0, 1)\<close> and the upper bounds \<open>(5, 5)\<close> and \<open>(7, 9)\<close>, both calls fail at the read
  of \<open>lower_bound[2]\<close>, index 2 on a vector of 2 elements.
\<close>

theorem SamplerSE2_sample_returns_no_vector:
  "fst (SamplerSE2_sample
          (Sampler_bounds [Finite 0, Finite 1] [Finite 5, Finite 5] (replay_rng [0, 0, 0])))
     = Inl (IndexOutOfRange 2 2)
   \<and> fst (SamplerSE2_sample
          (Sampler_bounds [Finite 0, Finite 1] [Finite 7, Finite 9] (replay_rng [0, 0, 0])))
     = Inl (IndexOutOfRange 2 2)"
  by (simp add: SamplerSE2_sample_def run_defs Sampler_bounds_def uniformReal_returns)

subsection \<open>SamplerSE3Quat\<close>

text \<open>
  C6. The claim has the first three components of a sample of \<open>SamplerSE3Quat\<close> in
  \<open>[lower_bound[i], upper_bound[i])\<close> for valid bounds. The code does not keep the upper bound
  out: with the bounds \<open>(1, 1, 1)\<close> and \<open>(2, 2, 2)\<close> and the first uniform draw \<open>1 - 2^-53\<close>
  (the other draws 0), \<open>sample()\<close> returns \<open>(2, 1, 1, 0, 1, 0, 0)\<close>, and its first component 2
  is not in \<open>[1, 2)\<close>.
\<close>

theorem SamplerSE3Quat_sample_reaches_upper_bound:
  "declared 3 (Sampler_bounds [Finite 1, Finite 1, Finite 1] [Finite 2, Finite 2, Finite 2]
      (replay_rng [9007199254740991, 0, 0, 0, 0, 0]))
   \<and> uniDist_ok (replay_rng [9007199254740991, 0, 0, 0, 0, 0])
   \<and> dle (Finite 1) (Finite 2)
   \<and> SamplerSE3Quat_sample
        (Sampler_bounds [Finite 1, Finite 1, Finite 1] [Finite 2, Finite 2, Finite 2]
          (replay_rng [9007199254740991, 0, 0, 0, 0, 0]))
       = (Inr [Finite 2, Finite 1, Finite 1, Finite 0, Finite 1, Finite 0, Finite 0],
          Sampler_bounds [Finite 1, Finite 1, Finite 1] [Finite 2, Finite 2, Finite 2]
            (replay_rng []))
   \<and> \<not> half_open (Finite 1) (Finite 2) (Finite 2)"
  by (simp add: declared_def Sampler_bounds_def uniDist_ok_replay SamplerSE3Quat_sample_def
      run_defs uniformReal_1_2_max uniformReal_1_2_zero quaternion_zero half_open_def)

subsection \<open>SamplerSE2_disk\<close>

text \<open>
  C7. When \<open>disk(r_min, r_max)\<close> yields the point \<open>(x, y)\<close>, \<open>SamplerSE2_disk::sample\<close> returns
  the 3-vector \<open>(x + c[0] - cref[0], y + c[1] - cref[1], h)\<close>, the sums and differences being
  those of \<open>double\<close>, where the heading \<open>h\<close> is the value of \<open>uniformReal(-pi, pi)\<close> on the engine
  that \<open>disk\<close> leaves, and \<open>h\<close> lies in \<open>[-pi, pi)\<close>.
\<close>

theorem SamplerSE2_disk_sample_pose:
  assumes "uniDist_ok (rng s)" and "disk (r_min s) (r_max s) (rng s) = (Inr (x, y), g)"
  shows "\<exists>h. SamplerSE2_disk_sample s
               = (Inr [fsub (fadd x (fst (c s))) (fst (cref s)),
                       fsub (fadd y (snd (c s))) (snd (cref s)), h],
                  s\<lparr>rng := snd (uniform01 g)\<rparr>)
           \<and> uniformReal (dneg constants_pi) constants_pi g = (Inr h, snd (uniform01 g))
           \<and> half_open (dneg constants_pi) constants_pi h"
proof -
  have "uniDist g = uniDist (rng s)"
    using disk_uniDist[of "r_min s" "r_max s" "rng s"] assms(2) by simp
  then have ok: "uniDist_ok g" using assms(1) by (simp add: uniDist_ok_def)
  define h where
    "h = fadd (fmul (fsub constants_pi (dneg constants_pi)) (fst (uniform01 g))) (dneg constants_pi)"
  have ur: "uniformReal (dneg constants_pi) constants_pi g = (Inr h, snd (uniform01 g))"
    unfolding h_def by (rule uniformReal_returns[OF dle_pi])
  obtain v where hv: "h = Finite v" and v0: "- pi64 \<le> v" and v1: "v < pi64"
    using heading_range[OF uniform01_unit[OF ok]] unfolding h_def by blast
  have ho: "half_open (dneg constants_pi) constants_pi h"
    using v0 v1 by (simp add: half_open_def hv constants_pi_def)
  have "SamplerSE2_disk_sample s
      = (Inr [fsub (fadd x (fst (c s))) (fst (cref s)),
              fsub (fadd y (snd (c s))) (snd (cref s)), h],
         s\<lparr>rng := snd (uniform01 g)\<rparr>)"
    using assms(2) ur by (simp add: SamplerSE2_disk_sample_def run_defs)
  with ur ho show ?thesis by blast
qed

text \<open>
  A run of C7's theorem: centre \<open>(10, 20)\<close>, reference point \<open>(1, 2)\<close>, radii 0 and 2, the
  uniform draws 0, 1/4 and 1/2; the disk point is \<open>(1, 0)\<close> and the heading 0.
\<close>

theorem SamplerSE2_disk_sample_pose_witness:
  "uniDist_ok (replay_rng [0, 2251799813685248, 4503599627370496])
   \<and> disk (Finite 0) (Finite 2) (replay_rng [0, 2251799813685248, 4503599627370496])
       = (Inr (Finite 1, Finite 0), replay_rng [4503599627370496])
   \<and> SamplerSE2_disk_sample
        \<lparr>rng = replay_rng [0, 2251799813685248, 4503599627370496],
         c = (Finite 10, Finite 20), cref = (Finite 1, Finite 2),
         r_min = Finite 0, r_max = Finite 2\<rparr>
       = (Inr [Finite 10, Finite 18, Finite 0],
          \<lparr>rng = replay_rng [],
           c = (Finite 10, Finite 20), cref = (Finite 1, Finite 2),
           r_min = Finite 0, r_max = Finite 2\<rparr>)
   \<and> half_open (dneg constants_pi) constants_pi (Finite 0)"
proof -
  let ?s = "\<lparr>rng = replay_rng [0, 2251799813685248, 4503599627370496],
         c = (Finite 10, Finite 20), cref = (Finite 1, Finite 2),
         r_min = Finite 0, r_max = Finite 2\<rparr>"
  have u: "uniDist_ok (rng ?s)" by (simp add: uniDist_ok_replay)
  have dk: "disk (Finite 0) (Finite 2) (replay_rng [0, 2251799813685248, 4503599627370496])
      = (Inr (Finite 1, Finite 0), replay_rng [4503599627370496])"
    by (rule disk_run)
  then have dk': "disk (r_min ?s) (r_max ?s) (rng ?s)
      = (Inr (Finite 1, Finite 0), replay_rng [4503599627370496])" by simp
  from SamplerSE2_disk_sample_pose[OF u dk']
  obtain h where run: "SamplerSE2_disk_sample ?s
        = (Inr [fsub (fadd (Finite 1) (fst (c ?s))) (fst (cref ?s)),
                fsub (fadd (Finite 0) (snd (c ?s))) (snd (cref ?s)), h],
           ?s\<lparr>rng := snd (uniform01 (replay_rng [4503599627370496]))\<rparr>)"
    and ur: "uniformReal (dneg constants_pi) constants_pi (replay_rng [4503599627370496])
        = (Inr h, snd (uniform01 (replay_rng [4503599627370496])))"
    and ho: "half_open (dneg constants_pi) constants_pi h"
    by blast
  from ur have h: "h = Finite 0" by (simp add: heading_run)
  from run ho dk show ?thesis
    by (simp add: h uniform01_replay uniDist_ok_replay fsub_def to_double_numeral)
qed

subsection \<open>What sample() changes\<close>

lemma only_rngD: "only_rng m \<Longrightarrow> snd (m s) = s\<lparr>rng := rng (snd (m s))\<rparr>"
  by (simp add: only_rng_def)

lemma only_rng_ret: "only_rng (ret x)"
  by (simp add: only_rng_def ret_def)

lemma only_rng_pair: "only_rng (\<lambda>s. (e, s))"
  by (simp add: only_rng_def)

lemma only_rng_rd: "only_rng (rd fld i)"
  by (simp add: only_rng_def rd_def)

lemma only_rng_with: "only_rng (\<lambda>s. with_rng (m s) s)"
  by (simp add: only_rng_def with_rng_def split: prod.splits)

lemma only_rng_with_rng: "only_rng (with_rng m)"
  by (rule only_rng_with)

lemma only_rng_andThen:
  assumes "only_rng m" and "\<And>x. only_rng (f x)"
  shows "only_rng (andThen m f)"
  unfolding only_rng_def
proof
  fix s
  obtain res s' where ms: "m s = (res, s')" by (cases "m s")
  have s': "s' = s\<lparr>rng := rng s'\<rparr>" using only_rngD[OF assms(1), of s] ms by simp
  show "snd (andThen m f s) = s\<lparr>rng := rng (snd (andThen m f s))\<rparr>"
  proof (cases res)
    case (Inl e)
    then show ?thesis using ms s' by (simp add: andThen_def)
  next
    case (Inr x)
    have "snd (f x s') = s'\<lparr>rng := rng (snd (f x s'))\<rparr>" by (rule only_rngD[OF assms(2)])
    also have "\<dots> = s\<lparr>rng := rng (snd (f x s'))\<rparr>" by (subst s') simp
    finally show ?thesis using ms Inr by (simp add: andThen_def)
  qed
qed

lemma only_rng_case_prod:
  assumes "\<And>a b. only_rng (f a b)"
  shows "only_rng (case p of (a, b) \<Rightarrow> f a b)"
  using assms by (cases p) simp

lemma only_rng_body: "only_rng (SamplerR_body i q)"
  unfolding SamplerR_body_def
  by (intro only_rng_andThen only_rng_rd only_rng_with_rng only_rng_pair)

lemma only_rng_loop: "snd (SamplerR_loop N i q s) = s\<lparr>rng := rng (snd (SamplerR_loop N i q s))\<rparr>"
proof (induction N i q s rule: SamplerR_loop.induct)
  case (1 N i q s)
  show ?case
  proof (cases "i < N")
    case False
    then show ?thesis by (simp add: SamplerR_loop.simps)
  next
    case True
    obtain res s' where b: "SamplerR_body i q s = (res, s')" by (cases "SamplerR_body i q s")
    have s': "s' = s\<lparr>rng := rng s'\<rparr>" using only_rngD[OF only_rng_body, of i q s] b by simp
    show ?thesis
    proof (cases res)
      case (Inl e)
      then show ?thesis using True b s' by (subst (1 2) SamplerR_loop.simps) simp
    next
      case (Inr q')
      have "snd (SamplerR_loop N (Suc i) q' s') = s'\<lparr>rng := rng (snd (SamplerR_loop N (Suc i) q' s'))\<rparr>"
        by (rule "1.IH"[OF True b[symmetric] Inr])
      also have "\<dots> = s\<lparr>rng := rng (snd (SamplerR_loop N (Suc i) q' s'))\<rparr>" by (subst s') simp
      finally show ?thesis using True b Inr by (subst (1 2) SamplerR_loop.simps) simp
    qed
  qed
qed

lemma only_rng_SamplerR: "only_rng (SamplerR_sample N)"
  unfolding only_rng_def SamplerR_sample_def using only_rng_loop by blast

lemma only_rng_SamplerSE2: "only_rng SamplerSE2_sample"
  unfolding SamplerSE2_sample_def
  by (intro only_rng_andThen only_rng_rd only_rng_with_rng only_rng_ret)

lemma only_rng_SamplerSE3Quat: "only_rng SamplerSE3Quat_sample"
  unfolding SamplerSE3Quat_sample_def
  by (intro only_rng_andThen only_rng_rd only_rng_with_rng only_rng_ret only_rng_case_prod)

lemma only_rng_SamplerSE3Euler: "only_rng (SamplerSE3Euler_sample eulerAngles)"
  unfolding SamplerSE3Euler_sample_def
  by (intro only_rng_andThen only_rng_rd only_rng_with_rng only_rng_ret only_rng_case_prod)

lemma only_rng_SamplerSE2_disk: "only_rng SamplerSE2_disk_sample"
  unfolding SamplerSE2_disk_sample_def
  by (intro only_rng_andThen only_rng_with only_rng_with_rng only_rng_ret only_rng_case_prod)
    (simp_all add: only_rng_def ret_def)

lemma only_rng_SamplerSE3Euler_ball: "only_rng (SamplerSE3Euler_ball_sample ball eulerAngles)"
  unfolding SamplerSE3Euler_ball_sample_def
  by (intro only_rng_andThen only_rng_with only_rng_with_rng only_rng_ret only_rng_case_prod)

lemma only_rng_SamplerSE3Quat_ball: "only_rng (SamplerSE3Quat_ball_sample ball)"
  unfolding SamplerSE3Quat_ball_sample_def
  by (intro only_rng_andThen only_rng_with only_rng_with_rng only_rng_ret only_rng_case_prod)

text \<open>
  C8. For every sampler of the family (\<open>SamplerR<N>\<close>, \<open>SamplerSE2\<close>, \<open>SamplerSE2_disk\<close>,
  \<open>SamplerSE3Euler\<close>, \<open>SamplerSE3Quat\<close>, \<open>SamplerSE3Euler_ball\<close>, \<open>SamplerSE3Quat_ball\<close>), the
  sampler after a call of \<open>sample()\<close>, whatever its outcome, is the sampler before the call with
  only the member \<open>rng\<close> replaced; in particular the bounds (\<open>lower_bound\<close> and \<open>upper_bound\<close>, or
  \<open>c\<close>, \<open>cref\<close>, \<open>r_min\<close> and \<open>r_max\<close>, or \<open>r\<close>) are unchanged.
\<close>

theorem sample_only_mutates_engine:
  fixes s :: "'g SamplerBox" and d :: "'g SamplerSE2_disk" and b :: "'g SamplerBall"
  shows "snd (SamplerR_sample N s) = s\<lparr>rng := rng (snd (SamplerR_sample N s))\<rparr>
       \<and> snd (SamplerSE2_sample s) = s\<lparr>rng := rng (snd (SamplerSE2_sample s))\<rparr>
       \<and> snd (SamplerSE2_disk_sample d) = d\<lparr>rng := rng (snd (SamplerSE2_disk_sample d))\<rparr>
       \<and> snd (SamplerSE3Euler_sample eulerAngles s)
           = s\<lparr>rng := rng (snd (SamplerSE3Euler_sample eulerAngles s))\<rparr>
       \<and> snd (SamplerSE3Quat_sample s) = s\<lparr>rng := rng (snd (SamplerSE3Quat_sample s))\<rparr>
       \<and> snd (SamplerSE3Euler_ball_sample ball eulerAngles b)
           = b\<lparr>rng := rng (snd (SamplerSE3Euler_ball_sample ball eulerAngles b))\<rparr>
       \<and> snd (SamplerSE3Quat_ball_sample ball b)
           = b\<lparr>rng := rng (snd (SamplerSE3Quat_ball_sample ball b))\<rparr>
       \<and> getBound (snd (SamplerR_sample N s)) = getBound s
       \<and> getBound (snd (SamplerSE2_sample s)) = getBound s
       \<and> getBound (snd (SamplerSE3Euler_sample eulerAngles s)) = getBound s
       \<and> getBound (snd (SamplerSE3Quat_sample s)) = getBound s
       \<and> c (snd (SamplerSE2_disk_sample d)) = c d
       \<and> cref (snd (SamplerSE2_disk_sample d)) = cref d
       \<and> r_min (snd (SamplerSE2_disk_sample d)) = r_min d
       \<and> r_max (snd (SamplerSE2_disk_sample d)) = r_max d
       \<and> r (snd (SamplerSE3Euler_ball_sample ball eulerAngles b)) = r b
       \<and> r (snd (SamplerSE3Quat_ball_sample ball b)) = r b"
proof -
  note e1 = only_rngD[OF only_rng_SamplerR, of N s]
  note e2 = only_rngD[OF only_rng_SamplerSE2, of s]
  note e3 = only_rngD[OF only_rng_SamplerSE2_disk, of d]
  note e4 = only_rngD[OF only_rng_SamplerSE3Euler, of eulerAngles s]
  note e5 = only_rngD[OF only_rng_SamplerSE3Quat, of s]
  note e6 = only_rngD[OF only_rng_SamplerSE3Euler_ball, of ball eulerAngles b]
  note e7 = only_rngD[OF only_rng_SamplerSE3Quat_ball, of ball b]
  have box: "getBound t = getBound s" if "t = s\<lparr>rng := g\<rparr>" for t :: "'g SamplerBox" and g
    using that by (simp add: getBound_def)
  have dsk: "c t = c d \<and> cref t = cref d \<and> r_min t = r_min d \<and> r_max t = r_max d"
    if "t = d\<lparr>rng := g\<rparr>" for t :: "'g SamplerSE2_disk" and g
    using that by simp
  have bll: "r t = r b" if "t = b\<lparr>rng := g\<rparr>" for t :: "'g SamplerBall" and g
    using that by simp
  show ?thesis
    using e1 e2 e3 e4 e5 e6 e7 box[OF e1] box[OF e2] box[OF e4] box[OF e5] dsk[OF e3]
      bll[OF e6] bll[OF e7]
    by blast
qed

subsection \<open>Setting the bounds\<close>

text \<open>
  C9. For all bound vectors \<open>lower\<close> and \<open>upper\<close>, a box sampler constructed with these bounds
  and a default-constructed box sampler (whatever its uninitialised bounds were) whose
  bounds are then set by \<open>setBound(lower, upper)\<close> behave alike: with engines in the same
  state, \<open>sample()\<close> has the same outcome, in particular returns the same vector, and leaves
  the same sampler.
\<close>

theorem SamplerR_setBound_reproduces:
  "SamplerR_sample N (setBound lower upper (Sampler_default l0 u0 g))
     = SamplerR_sample N (Sampler_bounds lower upper g)"
  by (simp add: setBound_def Sampler_default_def Sampler_bounds_def)

text \<open>
  A run of C9's theorem: \<open>N = 3\<close>, \<open>lower = (0, 0, 0)\<close>, \<open>upper = (1, 1, 1)\<close>, the uniform draws
  1/4, 1/2 and 3/4.
\<close>

theorem SamplerR_setBound_reproduces_witness:
  "SamplerR_sample 3
     (setBound [Finite 0, Finite 0, Finite 0] [Finite 1, Finite 1, Finite 1]
       (Sampler_default [Finite 7, NaN, PInf] [Finite 2, Finite 2, Finite 2]
         (replay_rng [2251799813685248, 4503599627370496, 6755399441055744])))
     = SamplerR_sample 3
         (Sampler_bounds [Finite 0, Finite 0, Finite 0] [Finite 1, Finite 1, Finite 1]
           (replay_rng [2251799813685248, 4503599627370496, 6755399441055744]))
   \<and> fst (SamplerR_sample 3
         (Sampler_bounds [Finite 0, Finite 0, Finite 0] [Finite 1, Finite 1, Finite 1]
           (replay_rng [2251799813685248, 4503599627370496, 6755399441055744])))
     = Inr [Finite (1 / 4), Finite (1 / 2), Finite (3 / 4)]"
proof -
  have rep: "replicate 3 (Finite 0) = [Finite 0, Finite 0, Finite 0]"
    by (simp add: numeral_3_eq_3)
  have q: "to_double (1 / 4) = Finite (1 / 4)" "to_double (1 / 2) = Finite (1 / 2)"
    "to_double (3 / 4) = Finite (3 / 4)"
    using is_double_fraction[of 1 2, THEN to_double_is_double]
      is_double_fraction[of 1 1, THEN to_double_is_double]
      is_double_fraction[of 3 2, THEN to_double_is_double]
    by simp_all
  have "fst (SamplerR_sample 3
         (Sampler_bounds [Finite 0, Finite 0, Finite 0] [Finite 1, Finite 1, Finite 1]
           (replay_rng [2251799813685248, 4503599627370496, 6755399441055744])))
      = Inr [Finite (1 / 4), Finite (1 / 2), Finite (3 / 4)]"
    by (simp add: loop_eval rep Sampler_bounds_def uniformReal_returns uniform01_replay
        unit_double_values fsub_def q)
  with SamplerR_setBound_reproduces
    [of 3 "[Finite 0, Finite 0, Finite 0]" "[Finite 1, Finite 1, Finite 1]"
        "[Finite 7, NaN, PInf]" "[Finite 2, Finite 2, Finite 2]"
        "replay_rng [2251799813685248, 4503599627370496, 6755399441055744]"]
  show ?thesis by simp
qed

end
